theory Spec2Isabelle
  imports Complex_Main
begin

section \<open>JavaScript values used by auto-track.js\<close>

text \<open>
  Strings are lists of characters; \<open>undefined\<close> and \<open>null\<close> are \<open>None\<close> of an option
  type. A property is truthy when it is a non-empty string.
\<close>

datatype jsval =
    Undefined
  | Str string
  | Num int
  | Fields "(string \<times> string option) list"

text \<open>An object literal is an insertion-ordered list of keys with their values.\<close>

type_synonym props = "(string \<times> jsval) list"

text \<open>One call \<open>window.Analytics.track(eventName, props)\<close>.\<close>

type_synonym track_call = "string \<times> props"

text \<open>
  The numbers the scroll tracker compares: the result of \<open>Math.round\<close> is an integer,
  \<open>NaN\<close>, or an infinity.
\<close>

datatype jsnum = NaN | NegInf | Fin int | PosInf

text \<open>JavaScript's \<open><\<close> on these numbers: every comparison with \<open>NaN\<close> is false.\<close>

fun js_lt :: "jsnum \<Rightarrow> jsnum \<Rightarrow> bool" where
  "js_lt NaN _ = False"
| "js_lt _ NaN = False"
| "js_lt NegInf NegInf = False"
| "js_lt NegInf _ = True"
| "js_lt (Fin a) (Fin b) = (a < b)"
| "js_lt (Fin a) PosInf = True"
| "js_lt (Fin a) NegInf = False"
| "js_lt PosInf _ = False"

definition js_gt :: "jsnum \<Rightarrow> jsnum \<Rightarrow> bool" where
  "js_gt a b = js_lt b a"

fun js_ge :: "jsnum \<Rightarrow> jsnum \<Rightarrow> bool" where
  "js_ge NaN _ = False"
| "js_ge _ NaN = False"
| "js_ge a b = (\<not> js_lt a b)"

definition js_le :: "jsnum \<Rightarrow> jsnum \<Rightarrow> bool" where
  "js_le a b = js_ge b a"

section \<open>Scroll tracker (trackScroll)\<close>

text \<open>
  What one run of \<open>trackScrollDepth\<close> reads from the window: \<open>window.pageYOffset\<close>,
  \<open>document.documentElement.scrollTop\<close>, \<open>document.documentElement.scrollHeight\<close> and
  \<open>window.innerHeight\<close>. The two heights are integers; the offsets are finite numbers.
\<close>

record scroll_metrics =
  pageYOffset :: rat
  documentElement_scrollTop :: rat
  scrollHeight :: int
  innerHeight :: int

text \<open>\<open>window.pageYOffset || document.documentElement.scrollTop\<close>: zero is falsy.\<close>

definition scrollTop :: "scroll_metrics \<Rightarrow> rat" where
  "scrollTop w = (if pageYOffset w \<noteq> 0 then pageYOffset w else documentElement_scrollTop w)"

definition docHeight :: "scroll_metrics \<Rightarrow> int" where
  "docHeight w = scrollHeight w - innerHeight w"

text \<open>
  \<open>Math.round((scrollTop / docHeight) * 100)\<close>. Division by a zero \<open>docHeight\<close> gives
  \<open>NaN\<close> for \<open>0 / 0\<close> and an infinity otherwise, and both multiplication by 100 and
  \<open>Math.round\<close> keep these values. For a non-zero \<open>docHeight\<close> the result is finite; the
  double-precision evaluation of the finite case is the parameter \<open>rnd\<close>, since the
  rounding of the quotient is not that of exact arithmetic.
\<close>

definition scrollPercent :: "(rat \<Rightarrow> int \<Rightarrow> int) \<Rightarrow> scroll_metrics \<Rightarrow> jsnum" where
  "scrollPercent rnd w =
     (if docHeight w = 0
      then (if scrollTop w = 0 then NaN else if 0 < scrollTop w then PosInf else NegInf)
      else Fin (rnd (scrollTop w) (docHeight w)))"

text \<open>The finite case in exact arithmetic, rounding halves up as \<open>Math.round\<close> does.\<close>

definition exact_round :: "rat \<Rightarrow> int \<Rightarrow> int" where
  "exact_round y h = \<lfloor>y / of_int h * 100 + 1 / 2\<rfloor>"

text \<open>The closure variables of \<open>trackScroll\<close>.\<close>

record scroll_state =
  maxScroll :: jsnum
  tracked :: "int set"

definition milestones :: "int list" where
  "milestones = [25, 50, 75, 90, 100]"

definition scroll_init :: scroll_state where
  "scroll_init = \<lparr>maxScroll = Fin 0, tracked = {}\<rparr>"

definition depth_event :: "int \<Rightarrow> track_call" where
  "depth_event milestone = (''scroll_depth'', [(''depth'', Num milestone)])"

text \<open>The body of \<open>milestones.forEach\<close>, threading the set and the calls made so far.\<close>

fun milestones_forEach :: "jsnum \<Rightarrow> int list \<Rightarrow> int set \<times> track_call list \<Rightarrow> int set \<times> track_call list" where
  "milestones_forEach scrollPct [] acc = acc"
| "milestones_forEach scrollPct (milestone # rest) (trk, out) =
     (if js_ge scrollPct (Fin milestone) \<and> milestone \<notin> trk
      then milestones_forEach scrollPct rest (insert milestone trk, out @ [depth_event milestone])
      else milestones_forEach scrollPct rest (trk, out))"

text \<open>\<open>trackScrollDepth\<close> once the percentage is computed: the new state and the calls made.\<close>

definition trackScrollDepth_at :: "jsnum \<Rightarrow> scroll_state \<Rightarrow> scroll_state \<times> track_call list" where
  "trackScrollDepth_at scrollPct st =
     (if js_gt scrollPct (maxScroll st)
      then (let (trk, out) = milestones_forEach scrollPct milestones (tracked st, [])
            in (\<lparr>maxScroll = scrollPct, tracked = trk\<rparr>, out))
      else (st, []))"

definition trackScrollDepth :: "(rat \<Rightarrow> int \<Rightarrow> int) \<Rightarrow> scroll_metrics \<Rightarrow> scroll_state \<Rightarrow> scroll_state \<times> track_call list" where
  "trackScrollDepth rnd w st = trackScrollDepth_at (scrollPercent rnd w) st"

text \<open>
  A session of the scroll tracker: the debounce timer fires once for each entry of the list,
  in order, starting from the state \<open>trackScroll\<close> sets up. The result is the state and
  all the calls made.
\<close>

fun scroll_session :: "(rat \<Rightarrow> int \<Rightarrow> int) \<Rightarrow> scroll_state \<times> track_call list \<Rightarrow> scroll_metrics list \<Rightarrow> scroll_state \<times> track_call list" where
  "scroll_session rnd acc [] = acc"
| "scroll_session rnd (st, out) (w # ws) =
     (let (st', evs) = trackScrollDepth rnd w st in scroll_session rnd (st', out @ evs) ws)"

text \<open>
  The invariant of the closure state: the maximum is never \<open>NaN\<close>, and the set holds
  exactly the milestones at most the maximum.
\<close>

definition scroll_inv :: "scroll_state \<Rightarrow> bool" where
  "scroll_inv st =
     (maxScroll st \<noteq> NaN \<and> tracked st = {m \<in> set milestones. js_le (Fin m) (maxScroll st)})"

text \<open>The calls made so far are one \<open>scroll_depth\<close> event for each member of the set.\<close>

definition session_inv :: "scroll_state \<times> track_call list \<Rightarrow> bool" where
  "session_inv acc =
     (scroll_inv (fst acc) \<and>
      (\<exists>ms. snd acc = map depth_event ms \<and> distinct ms \<and> set ms = tracked (fst acc)))"

text \<open>Window readings used as concrete inputs.\<close>

definition w60 :: scroll_metrics where
  "w60 = \<lparr>pageYOffset = 600, documentElement_scrollTop = 600, scrollHeight = 1800, innerHeight = 800\<rparr>"

definition w_top :: scroll_metrics where
  "w_top = \<lparr>pageYOffset = 0, documentElement_scrollTop = 0, scrollHeight = 800, innerHeight = 800\<rparr>"

definition w_bounce :: scroll_metrics where
  "w_bounce = \<lparr>pageYOffset = 3, documentElement_scrollTop = 3, scrollHeight = 800, innerHeight = 800\<rparr>"

section \<open>Strings\<close>

text \<open>
  A \<open>char\<close> stands for the UTF-16 code unit of the same number; strings with code units
  above 255 are outside the model. \<open>toLowerCase\<close> maps the upper-case letters of that range.
\<close>

definition lower_char :: "char \<Rightarrow> char" where
  "lower_char c =
     (let n = (of_char c :: nat)
      in if (65 \<le> n \<and> n \<le> 90) \<or> (192 \<le> n \<and> n \<le> 222 \<and> n \<noteq> 215) then char_of (n + 32) else c)"

definition toLowerCase :: "string \<Rightarrow> string" where
  "toLowerCase s = map lower_char s"

text \<open>The white space and line terminators that \<open>trim\<close> removes, in the same range.\<close>

definition js_whitespace :: "char \<Rightarrow> bool" where
  "js_whitespace c = ((of_char c :: nat) \<in> {9, 10, 11, 12, 13, 32, 160})"

definition trim :: "string \<Rightarrow> string" where
  "trim s = rev (dropWhile js_whitespace (rev (dropWhile js_whitespace s)))"

text \<open>\<open>s.split(sep)\<close> for a one-character separator: the empty string splits into one empty piece.\<close>

fun split :: "char \<Rightarrow> string \<Rightarrow> string list" where
  "split sep [] = [[]]"
| "split sep (c # cs) =
     (if c = sep then [] # split sep cs
      else (case split sep cs of [] \<Rightarrow> [[c]] | piece # pieces \<Rightarrow> (c # piece) # pieces))"

text \<open>\<open>pieces.join(sep)\<close>.\<close>

fun join :: "string \<Rightarrow> string list \<Rightarrow> string" where
  "join sep [] = []"
| "join sep [piece] = piece"
| "join sep (piece # next # pieces) = piece @ sep @ join sep (next # pieces)"

text \<open>The decimal digits of a natural number, as string interpolation prints \<open>ix + 1\<close>.\<close>

definition digit_char :: "nat \<Rightarrow> char" where
  "digit_char d = char_of (48 + d)"

fun show_nat :: "nat \<Rightarrow> string" where
  "show_nat n = (if n < 10 then [digit_char n] else show_nat (n div 10) @ [digit_char (n mod 10)])"

declare show_nat.simps [simp del]

text \<open>A string property is truthy when it is defined and not empty.\<close>

definition truthy :: "string option \<Rightarrow> bool" where
  "truthy x = (case x of None \<Rightarrow> False | Some s \<Rightarrow> s \<noteq> [])"

text \<open>\<open>x || 'unknown'\<close>.\<close>

definition or_unknown :: "string option \<Rightarrow> string" where
  "or_unknown x = (case x of None \<Rightarrow> ''unknown'' | Some s \<Rightarrow> if s \<noteq> [] then s else ''unknown'')"

text \<open>A property copied as it is: a string, or \<open>undefined\<close>.\<close>

definition prop_val :: "string option \<Rightarrow> jsval" where
  "prop_val x = (case x of None \<Rightarrow> Undefined | Some s \<Rightarrow> Str s)"

text \<open>\<open>props[key] = v\<close> on an insertion-ordered object: an existing key keeps its place.\<close>

fun set_prop :: "string \<Rightarrow> jsval \<Rightarrow> props \<Rightarrow> props" where
  "set_prop key v [] = [(key, v)]"
| "set_prop key v ((k, old) # ps) =
     (if key = k then (k, v) # ps else (k, old) # set_prop key v ps)"

text \<open>\<open>if (x) props[key] = f(x)\<close> for a string property \<open>x\<close>.\<close>

definition when_truthy :: "string option \<Rightarrow> (string \<Rightarrow> props \<Rightarrow> props) \<Rightarrow> props \<Rightarrow> props" where
  "when_truthy x f ps = (case x of None \<Rightarrow> ps | Some s \<Rightarrow> if s \<noteq> [] then f s ps else ps)"

section \<open>The DOM\<close>

text \<open>
  The properties auto-track.js reads from a node. A property that is \<open>undefined\<close> or
  \<open>null\<close> on the node is \<open>None\<close>: \<open>tagName\<close> and \<open>id\<close> on a node that is not an element,
  \<open>name\<close>, \<open>type\<close> and \<open>value\<close> on an element that has none, \<open>className\<close> when it is not a
  string (it is an object on SVG elements). \<open>role\<close> is the attribute read by
  \<open>hasAttribute\<close>/\<open>getAttribute\<close>; \<open>form_id\<close> is \<open>element.form?.id\<close>. The \<open>value\<close> of the
  form controls is a string; numeric \<open>value\<close> properties are outside the model.
\<close>

record node_data =
  nodeType :: nat
  tagName :: "string option"
  el_id :: "string option"
  className :: "string option"
  textContent :: "string option"
  dataset :: "(string \<times> string) list option"
  el_name :: "string option"
  el_type :: "string option"
  el_value :: "string option"
  role :: "string option"
  href :: "string option"
  target :: "string option"
  form_id :: "string option"

datatype node = Node node_data "node list"

fun props_of :: "node \<Rightarrow> node_data" where
  "props_of (Node d cs) = d"

fun childNodes :: "node \<Rightarrow> node list" where
  "childNodes (Node d cs) = cs"

text \<open>
  A node is referred to by its position: the child indices from the node up to the root of
  its tree, nearest first. Two references are the same object exactly when they are equal;
  \<open>parentNode\<close> of \<open>k # p\<close> is \<open>p\<close>, and the root has none.
\<close>

type_synonym node_ref = "nat list"

fun node_at :: "node \<Rightarrow> node_ref \<Rightarrow> node option" where
  "node_at t [] = Some t"
| "node_at t (k # p) =
     (case node_at t p of
        None \<Rightarrow> None
      | Some parent \<Rightarrow> if k < length (childNodes parent) then Some (childNodes parent ! k) else None)"

text \<open>
  The page: the tree the event target is in (a document, or a detached subtree), the
  position of \<open>document.body\<close> when it is in this tree, and \<open>window.location.pathname\<close>.
\<close>

record page =
  root :: node
  body :: "node_ref option"
  pathname :: string

text \<open>
  \<open>TypeError\<close> is what reading a property of \<open>undefined\<close> or calling a method that is not
  there throws. \<open>DanglingRef\<close> answers a reference that denotes no node of the tree, which
  has no counterpart in the program.
\<close>

datatype error = TypeError | DanglingRef

section \<open>Structural path (getXPath)\<close>

text \<open>
  The \<open>for\<close> loop over \<open>siblings\<close>: \<open>i\<close> is the loop index, \<open>k\<close> the index at which
  \<open>sibling === element\<close> holds, \<open>tg\<close> is \<open>element.tagName\<close>. The result is \<open>ix\<close> when the element
  is met, and \<open>None\<close> when the loop runs off the end.
\<close>

fun sibling_loop :: "node list \<Rightarrow> nat \<Rightarrow> nat \<Rightarrow> string option \<Rightarrow> nat \<Rightarrow> nat option" where
  "sibling_loop [] i k tg ix = None"
| "sibling_loop (sibling # rest) i k tg ix =
     (if i = k then Some ix
      else sibling_loop rest (Suc i) k tg
             (if nodeType (props_of sibling) = 1 \<and> tagName (props_of sibling) = tg then Suc ix else ix))"

definition id_path :: "string \<Rightarrow> string" where
  "id_path i = ''//*[@id='' @ [CHR 0x22] @ i @ [CHR 0x22] @ '']''"

text \<open>The two early returns: an element with an id, and \<open>document.body\<close>.\<close>

definition early_path :: "page \<Rightarrow> node_ref \<Rightarrow> node \<Rightarrow> string option" where
  "early_path pg r element =
     (if truthy (el_id (props_of element)) then map_option id_path (el_id (props_of element))
      else if body pg = Some r then Some ''/html/body''
      else None)"

fun getXPath :: "page \<Rightarrow> node_ref \<Rightarrow> error + string" where
  "getXPath pg [] =
     (case early_path pg [] (root pg) of Some path \<Rightarrow> Inr path | None \<Rightarrow> Inr [])"
| "getXPath pg (k # p) =
     (case node_at (root pg) (k # p) of
        None \<Rightarrow> Inl DanglingRef
      | Some element \<Rightarrow>
         (case early_path pg (k # p) element of
            Some path \<Rightarrow> Inr path
          | None \<Rightarrow>
             (case node_at (root pg) p of
                None \<Rightarrow> Inl DanglingRef
              | Some parent \<Rightarrow>
                 (case sibling_loop (childNodes parent) 0 k (tagName (props_of element)) 0 of
                    None \<Rightarrow> Inr []
                  | Some ix \<Rightarrow>
                     (case getXPath pg p of
                        Inl err \<Rightarrow> Inl err
                      | Inr parentPath \<Rightarrow>
                         (case tagName (props_of element) of
                            None \<Rightarrow> Inl TypeError
                          | Some tg \<Rightarrow>
                             Inr (parentPath @ ''/'' @ toLowerCase tg @ ''['' @ show_nat (ix + 1) @ '']'')))))))"


section \<open>Element descriptor (getElementProps)\<close>

text \<open>The options of \<open>AutoTrack.config\<close>; a flag is read for its truthiness only.\<close>

record config =
  trackClicks :: bool
  trackForms :: bool
  trackScroll :: bool
  trackErrors :: bool
  trackPerformance :: bool
  trackVisibility :: bool
  captureText :: bool
  captureAttributes :: bool
  debounceScroll :: nat

definition default_config :: config where
  "default_config =
     \<lparr>trackClicks = True, trackForms = True, trackScroll = True, trackErrors = True,
      trackPerformance = True, trackVisibility = True, captureText = True,
      captureAttributes = True, debounceScroll = 500\<rparr>"

text \<open>\<open>element.parentElement\<close>: the parent when it is an element.\<close>

definition parentElement :: "page \<Rightarrow> node_ref \<Rightarrow> node_ref option" where
  "parentElement pg r =
     (case r of
        [] \<Rightarrow> None
      | k # p \<Rightarrow>
         (case node_at (root pg) p of
            None \<Rightarrow> None
          | Some parent \<Rightarrow> if nodeType (props_of parent) = 1 then Some p else None))"

text \<open>\<open>el.dataset && el.dataset.gaId\<close>, as a string when it is truthy.\<close>

definition dataset_gaId :: "node_data \<Rightarrow> string option" where
  "dataset_gaId d =
     (case dataset d of
        None \<Rightarrow> None
      | Some ds \<Rightarrow> (case map_of ds ''gaId'' of None \<Rightarrow> None | Some v \<Rightarrow> if v \<noteq> [] then Some v else None))"

text \<open>
  The \<open>while\<close> loop that climbs from the element, \<open>maxDepth\<close> counting down from 5; it
  sets \<open>props.gaId\<close> at the first node that has the marker and stops.
\<close>

fun gaId_loop :: "page \<Rightarrow> node_ref option \<Rightarrow> nat \<Rightarrow> props \<Rightarrow> props" where
  "gaId_loop pg None maxDepth props = props"
| "gaId_loop pg (Some r) 0 props = props"
| "gaId_loop pg (Some r) (Suc maxDepth) props =
     (case node_at (root pg) r of
        None \<Rightarrow> props
      | Some gaIdElement \<Rightarrow>
         (case dataset_gaId (props_of gaIdElement) of
            Some v \<Rightarrow> set_prop ''gaId'' (Str v) props
          | None \<Rightarrow> gaId_loop pg (parentElement pg r) maxDepth props))"

text \<open>
  \<open>Object.keys(element.dataset).forEach(key => props['data_' + key] = element.dataset[key])\<close>,
  which is skipped when the element has no \<open>dataset\<close>.
\<close>

definition copy_dataset :: "(string \<times> string) list option \<Rightarrow> props \<Rightarrow> props" where
  "copy_dataset d ps =
     (case d of
        None \<Rightarrow> ps
      | Some ds \<Rightarrow>
         foldl (\<lambda>acc key. set_prop (''data_'' @ key) (prop_val (map_of ds key)) acc) ps (map fst ds))"

text \<open>\<open>className.split(' ').filter(c => c).join(' ')\<close>.\<close>

definition class_list :: "string \<Rightarrow> string" where
  "class_list cn = join '' '' (filter (\<lambda>c. c \<noteq> []) (split (CHR '' '') cn))"

text \<open>\<open>if (c) { ... }\<close> around an assignment to \<open>props\<close>.\<close>

definition js_if :: "bool \<Rightarrow> (props \<Rightarrow> props) \<Rightarrow> props \<Rightarrow> props" where
  "js_if c f ps = (if c then f ps else ps)"

text \<open>
  The assignments of \<open>getElementProps\<close> between the first statement and the call of
  \<open>getXPath\<close>, for an element whose tag name is \<open>tg\<close>.
\<close>

definition descriptor_fields :: "config \<Rightarrow> page \<Rightarrow> node_ref \<Rightarrow> node_data \<Rightarrow> string \<Rightarrow> props" where
  "descriptor_fields cfg pg r element tg =
     (let props = [(''elementType'', Str (toLowerCase tg)), (''page'', Str (pathname pg))];
          props = when_truthy (el_id element) (\<lambda>i. set_prop ''elementId'' (Str i)) props;
          props = when_truthy (className element)
                    (\<lambda>cn. set_prop ''elementClasses'' (Str (class_list cn))) props;
          props = js_if (captureText cfg)
                    (when_truthy (textContent element)
                       (\<lambda>t. set_prop ''elementText'' (Str (take 100 (trim t))))) props;
          props = gaId_loop pg (Some r) 5 props;
          props = js_if (captureAttributes cfg) (copy_dataset (dataset element)) props;
          props = when_truthy (el_name element) (\<lambda>n. set_prop ''elementName'' (Str n)) props;
          props = when_truthy (el_type element) (\<lambda>t. set_prop ''inputType'' (Str t)) props;
          props = js_if (el_type element \<noteq> Some ''password'')
                    (when_truthy (el_value element)
                       (\<lambda>v. set_prop ''elementValue'' (Str (take 50 v)))) props
      in props)"

text \<open>
  \<open>getElementProps\<close>: reading \<open>tagName.toLowerCase()\<close> of a node without a tag name throws,
  and so may \<open>getXPath\<close>; nothing in between does.
\<close>

definition getElementProps :: "config \<Rightarrow> page \<Rightarrow> node_ref \<Rightarrow> error + props" where
  "getElementProps cfg pg r =
     (case node_at (root pg) r of
        None \<Rightarrow> Inl DanglingRef
      | Some (Node element children) \<Rightarrow>
         (case tagName element of
            None \<Rightarrow> Inl TypeError
          | Some tg \<Rightarrow>
             (case getXPath pg r of
                Inl err \<Rightarrow> Inl err
              | Inr path \<Rightarrow> Inr (set_prop ''xpath'' (Str path) (descriptor_fields cfg pg r element tg)))))"

section \<open>Listeners\<close>

text \<open>
  The sink's \<open>track\<close> is taken to return normally, as its contract says; a call is recorded.
  What a listener does with one event: the calls to \<open>track\<close>, the lines it writes to the
  console, and the exception that leaves it, if any.
\<close>

datatype console_entry =
    LogWaiting
  | LogReady
  | ErrorNotInitialized
  | LogStarting
  | LogEnabled
  | ErrorTrackingClick

record effects =
  calls :: "track_call list"
  logged :: "console_entry list"
  thrown :: "error option"

definition tracked_call :: "track_call \<Rightarrow> effects" where
  "tracked_call c = \<lparr>calls = [c], logged = [], thrown = None\<rparr>"

definition nothing :: effects where
  "nothing = \<lparr>calls = [], logged = [], thrown = None\<rparr>"

definition throws :: "error \<Rightarrow> effects" where
  "throws err = \<lparr>calls = [], logged = [], thrown = Some err\<rparr>"

subsection \<open>Clicks (trackClicks)\<close>

text \<open>The body of the \<open>try\<close> block, up to the call it makes.\<close>

definition click_try :: "config \<Rightarrow> page \<Rightarrow> node_ref \<Rightarrow> error + track_call" where
  "click_try cfg pg r =
     (case getElementProps cfg pg r of
        Inl err \<Rightarrow> Inl err
      | Inr props \<Rightarrow>
         (case node_at (root pg) r of
            None \<Rightarrow> Inl DanglingRef
          | Some (Node element children) \<Rightarrow>
             (case tagName element of
                None \<Rightarrow> Inl TypeError
              | Some tg \<Rightarrow>
                 (if toLowerCase tg = ''button'' then Inr (''button_clicked'', props)
                  else if toLowerCase tg = ''a''
                  then Inr (''link_clicked'',
                            set_prop ''target'' (prop_val (target element))
                              (set_prop ''href'' (prop_val (href element)) props))
                  else if role element = Some ''button'' then Inr (''button_clicked'', props)
                  else Inr (''element_clicked'', props)))))"

text \<open>The listener: the \<open>catch\<close> block writes to the console and returns.\<close>

definition click_listener :: "config \<Rightarrow> page \<Rightarrow> node_ref \<Rightarrow> effects" where
  "click_listener cfg pg r =
     (case click_try cfg pg r of
        Inr c \<Rightarrow> tracked_call c
      | Inl err \<Rightarrow> \<lparr>calls = [], logged = [ErrorTrackingClick], thrown = None\<rparr>)"

subsection \<open>Form submissions (trackForms)\<close>

text \<open>
  What the listener reads from \<open>e.target\<close>. \<open>elements\<close> is \<open>None\<close> when the target has no
  such property, as an element that is not a form.
\<close>

record submit_target =
  form_ident :: "string option"
  form_name :: "string option"
  form_action :: "string option"
  form_method :: "string option"
  elements :: "node_data list option"

text \<open>The \<open>for\<close> loop over \<open>form.elements\<close>, giving \<open>props.fields\<close>.\<close>

fun form_fields :: "node_data list \<Rightarrow> (string \<times> string option) list" where
  "form_fields [] = []"
| "form_fields (field # rest) =
     (case el_name field of
        None \<Rightarrow> form_fields rest
      | Some n \<Rightarrow>
         if n \<noteq> [] \<and> el_type field \<noteq> Some ''password''
         then (n, el_type field) # form_fields rest
         else form_fields rest)"

definition submit_props :: "submit_target \<Rightarrow> error + props" where
  "submit_props form =
     (case elements form of
        None \<Rightarrow> Inl TypeError
      | Some els \<Rightarrow>
         Inr [(''formId'', Str (or_unknown (form_ident form))),
              (''formName'', Str (or_unknown (form_name form))),
              (''formAction'', prop_val (form_action form)),
              (''formMethod'', prop_val (form_method form)),
              (''fieldCount'', Num (int (length els))),
              (''fields'', Fields (form_fields els))])"

text \<open>The listener has no \<open>try\<close>: an exception leaves it.\<close>

definition submit_listener :: "submit_target \<Rightarrow> effects" where
  "submit_listener form =
     (case submit_props form of
        Inl err \<Rightarrow> throws err
      | Inr props \<Rightarrow> tracked_call (''form_submitted'', props))"

subsection \<open>Field focus (trackInputFocus)\<close>

definition focus_listener :: "node_data \<Rightarrow> string set \<Rightarrow> string set \<times> effects" where
  "focus_listener element trackedFields =
     (if tagName element \<in> {Some ''INPUT'', Some ''TEXTAREA'', Some ''SELECT''}
      then (let fieldId = (if truthy (el_id element) then or_unknown (el_id element)
                            else or_unknown (el_name element))
            in if fieldId \<notin> trackedFields
               then (insert fieldId trackedFields,
                     tracked_call (''form_field_focused'',
                       [(''fieldId'', Str fieldId),
                        (''fieldName'', prop_val (el_name element)),
                        (''fieldType'', prop_val (el_type element)),
                        (''formId'', Str (or_unknown (form_id element)))]))
               else (trackedFields, nothing))
      else (trackedFields, nothing))"


subsection \<open>Errors (trackErrors)\<close>

text \<open>
  What the \<open>error\<close> listener reads from the event; \<open>error_stack\<close> is \<open>e.error?.stack\<close>, which
  is \<open>Undefined\<close> when there is no error object or no stack. \<open>substring\<close> exists on strings
  only.
\<close>

record error_event =
  message :: string
  filename :: string
  lineno :: int
  colno :: int
  error_stack :: jsval

definition error_listener :: "error_event \<Rightarrow> effects" where
  "error_listener e =
     (case (case error_stack e of
              Undefined \<Rightarrow> Inr Undefined
            | Str s \<Rightarrow> Inr (Str (take 500 s))
            | Num n \<Rightarrow> Inl TypeError
            | Fields fs \<Rightarrow> Inl TypeError) of
        Inl err \<Rightarrow> throws err
      | Inr stack \<Rightarrow>
         tracked_call (''javascript_error'',
           [(''message'', Str (message e)), (''filename'', Str (filename e)),
            (''line'', Num (lineno e)), (''column'', Num (colno e)), (''stack'', stack)]))"

text \<open>
  The \<open>unhandledrejection\<close> listener; the argument is \<open>String(e.reason)\<close>, or \<open>None\<close> when
  that conversion throws.
\<close>

definition rejection_listener :: "string option \<Rightarrow> effects" where
  "rejection_listener reason =
     (case reason of
        None \<Rightarrow> throws TypeError
      | Some s \<Rightarrow> tracked_call (''promise_rejection'', [(''reason'', Str s)]))"

subsection \<open>Visibility (trackVisibility)\<close>

text \<open>
  \<open>hidden\<close> is \<open>document.hidden\<close>, \<open>now\<close> is \<open>Date.now()\<close> in milliseconds, and the result
  holds the new \<open>startTime\<close>. For integers, \<open>Math.round(n / 1000)\<close> is \<open>(n + 500) div 1000\<close>.
\<close>

definition visibility_listener :: "bool \<Rightarrow> int \<Rightarrow> int \<Rightarrow> int \<times> effects" where
  "visibility_listener hidden now startTime =
     (if hidden
      then (startTime,
            tracked_call (''page_hidden'', [(''timeOnPage'', Num ((now - startTime + 500) div 1000))]))
      else (now, tracked_call (''page_visible'', [])))"

subsection \<open>Performance (trackPerformance)\<close>

text \<open>
  What the timer started by the \<open>load\<close> listener reads: three fields of
  \<open>performance.timing\<close> and the entries of \<open>performance.getEntriesByType('paint')\<close> with their
  names and start times, \<open>None\<close> when that method is not there.
\<close>

record performance_data =
  loadEventEnd :: int
  domContentLoadedEventEnd :: int
  navigationStart :: int
  paint_entries :: "(string \<times> rat) list option"

definition performance_timer :: "performance_data \<Rightarrow> effects" where
  "performance_timer t =
     (case paint_entries t of
        None \<Rightarrow> throws TypeError
      | Some entries \<Rightarrow>
         (let firstPaint = map_option snd (find (\<lambda>entry. fst entry = ''first-contentful-paint'') entries)
          in tracked_call (''page_performance'',
               [(''loadTime'', Num (loadEventEnd t - navigationStart t)),
                (''domReady'', Num (domContentLoadedEventEnd t - navigationStart t)),
                (''firstPaint'',
                 (case firstPaint of
                    None \<Rightarrow> Undefined
                  | Some p \<Rightarrow> if p \<noteq> 0 then Num \<lfloor>p + 1 / 2\<rfloor> else Undefined))])))"

section \<open>Start-up (start, _initializeTracking) and the session\<close>

text \<open>The argument of \<open>start\<close>: each option is given or left out.\<close>

record custom_config =
  set_trackClicks :: "bool option"
  set_trackForms :: "bool option"
  set_trackScroll :: "bool option"
  set_trackErrors :: "bool option"
  set_trackPerformance :: "bool option"
  set_trackVisibility :: "bool option"
  set_captureText :: "bool option"
  set_captureAttributes :: "bool option"
  set_debounceScroll :: "nat option"

definition override :: "'a \<Rightarrow> 'a option \<Rightarrow> 'a" where
  "override d x = (case x of None \<Rightarrow> d | Some v \<Rightarrow> v)"

text \<open>\<open>{ ...this.config, ...customConfig }\<close>.\<close>

definition merge_config :: "config \<Rightarrow> custom_config \<Rightarrow> config" where
  "merge_config c custom =
     \<lparr>trackClicks = override (trackClicks c) (set_trackClicks custom),
      trackForms = override (trackForms c) (set_trackForms custom),
      trackScroll = override (trackScroll c) (set_trackScroll custom),
      trackErrors = override (trackErrors c) (set_trackErrors custom),
      trackPerformance = override (trackPerformance c) (set_trackPerformance custom),
      trackVisibility = override (trackVisibility c) (set_trackVisibility custom),
      captureText = override (captureText c) (set_captureText custom),
      captureAttributes = override (captureAttributes c) (set_captureAttributes custom),
      debounceScroll = override (debounceScroll c) (set_debounceScroll custom)\<rparr>"

text \<open>The listeners that \<open>addEventListener\<close> registers, named by their event.\<close>

datatype listener =
    LoadListener
  | ClickListener
  | SubmitListener
  | ScrollListener
  | ErrorListener
  | RejectionListener
  | VisibilityListener
  | FocusListener

text \<open>
  The state of one page session: the merged configuration, the poll counter while the
  50 ms interval is set, the registered listeners, the console, the calls made to the sink,
  the exceptions that left a listener, and the closure variables of the trackers.
\<close>

record session =
  config :: config
  polling :: "nat option"
  listeners :: "listener list"
  console :: "console_entry list"
  sent :: "track_call list"
  uncaught :: "error list"
  scroll :: scroll_state
  trackedFields :: "string set"
  startTime :: int

text \<open>
  \<open>_initializeTracking\<close>. \<open>timing\<close> says whether \<open>window.performance.timing\<close> is there, and
  \<open>now\<close> is \<open>Date.now()\<close>, read by \<open>trackVisibility\<close>. Each tracker that is switched on
  registers its listeners and sets up its closure variables; \<open>trackInputFocus\<close> is called
  last, outside any test.
\<close>

definition initializeTracking :: "bool \<Rightarrow> int \<Rightarrow> session \<Rightarrow> session" where
  "initializeTracking timing now s =
     s\<lparr>console := console s @ [LogStarting, LogEnabled],
       listeners := listeners s
         @ (if trackPerformance (config s) \<and> timing then [LoadListener] else [])
         @ (if trackClicks (config s) then [ClickListener] else [])
         @ (if trackForms (config s) then [SubmitListener] else [])
         @ (if trackScroll (config s) then [ScrollListener] else [])
         @ (if trackErrors (config s) then [ErrorListener, RejectionListener] else [])
         @ (if trackVisibility (config s) then [VisibilityListener] else [])
         @ [FocusListener],
       scroll := (if trackScroll (config s) then scroll_init else scroll s),
       trackedFields := {},
       startTime := (if trackVisibility (config s) then now else startTime s)\<rparr>"

text \<open>\<open>start(customConfig)\<close>; \<open>present\<close> says whether the sink and its instance are there.\<close>

definition start :: "custom_config \<Rightarrow> bool \<Rightarrow> bool \<Rightarrow> int \<Rightarrow> session" where
  "start custom present timing now =
     (let s = \<lparr>config = merge_config default_config custom, polling = None, listeners = [],
                console = [], sent = [], uncaught = [], scroll = scroll_init,
                trackedFields = {}, startTime = now\<rparr>
      in if \<not> present
         then s\<lparr>console := [LogWaiting], polling := Some 0\<rparr>
         else initializeTracking timing now s)"

definition maxAttempts :: nat where
  "maxAttempts = 100"

text \<open>The callback of \<open>setInterval\<close>; a cleared interval does not fire.\<close>

definition interval_tick :: "bool \<Rightarrow> bool \<Rightarrow> int \<Rightarrow> session \<Rightarrow> session" where
  "interval_tick present timing now s =
     (case polling s of
        None \<Rightarrow> s
      | Some n \<Rightarrow>
         (let attempts = n + 1
          in if present
             then initializeTracking timing now (s\<lparr>polling := None, console := console s @ [LogReady]\<rparr>)
             else if attempts \<ge> maxAttempts
             then s\<lparr>polling := None, console := console s @ [ErrorNotInitialized]\<rparr>
             else s\<lparr>polling := Some attempts\<rparr>))"

text \<open>
  What happens on the page: the interval fires (with the sink present or not), an event
  reaches \<open>document\<close> or \<open>window\<close>, the scroll debounce timer fires, or the timer set by the
  \<open>load\<close> listener fires.
\<close>

datatype input =
    IntervalTick bool int
  | Click page node_ref
  | Submit submit_target
  | ScrollTimer scroll_metrics
  | ErrorEvent error_event
  | UnhandledRejection "string option"
  | VisibilityChange bool int
  | Focus node_data
  | LoadTimer performance_data

definition apply_effects :: "effects \<Rightarrow> session \<Rightarrow> session" where
  "apply_effects fx s =
     s\<lparr>sent := sent s @ calls fx,
       console := console s @ logged fx,
       uncaught := uncaught s @ (case thrown fx of None \<Rightarrow> [] | Some err \<Rightarrow> [err])\<rparr>"

text \<open>An event runs the listener registered for it, and nothing when there is none.\<close>

fun step :: "(rat \<Rightarrow> int \<Rightarrow> int) \<Rightarrow> bool \<Rightarrow> session \<Rightarrow> input \<Rightarrow> session" where
  "step rnd timing s (IntervalTick present now) = interval_tick present timing now s"
| "step rnd timing s (Click pg r) =
     (if ClickListener \<in> set (listeners s) then apply_effects (click_listener (config s) pg r) s else s)"
| "step rnd timing s (Submit form) =
     (if SubmitListener \<in> set (listeners s) then apply_effects (submit_listener form) s else s)"
| "step rnd timing s (ScrollTimer w) =
     (if ScrollListener \<in> set (listeners s)
      then (let (st, evs) = trackScrollDepth rnd w (scroll s)
            in (apply_effects \<lparr>calls = evs, logged = [], thrown = None\<rparr> s)\<lparr>scroll := st\<rparr>)
      else s)"
| "step rnd timing s (ErrorEvent e) =
     (if ErrorListener \<in> set (listeners s) then apply_effects (error_listener e) s else s)"
| "step rnd timing s (UnhandledRejection reason) =
     (if RejectionListener \<in> set (listeners s) then apply_effects (rejection_listener reason) s else s)"
| "step rnd timing s (VisibilityChange hidden now) =
     (if VisibilityListener \<in> set (listeners s)
      then (let (t, fx) = visibility_listener hidden now (startTime s)
            in (apply_effects fx s)\<lparr>startTime := t\<rparr>)
      else s)"
| "step rnd timing s (Focus element) =
     (if FocusListener \<in> set (listeners s)
      then (let (seen, fx) = focus_listener element (trackedFields s)
            in (apply_effects fx s)\<lparr>trackedFields := seen\<rparr>)
      else s)"
| "step rnd timing s (LoadTimer t) =
     (if LoadListener \<in> set (listeners s) then apply_effects (performance_timer t) s else s)"

fun run :: "(rat \<Rightarrow> int \<Rightarrow> int) \<Rightarrow> bool \<Rightarrow> session \<Rightarrow> input list \<Rightarrow> session" where
  "run rnd timing s [] = s"
| "run rnd timing s (i # ins) = run rnd timing (step rnd timing s i) ins"

text \<open>The sink's presence at each firing of the interval, in order.\<close>

fun ticks :: "input list \<Rightarrow> bool list" where
  "ticks [] = []"
| "ticks (IntervalTick present now # ins) = present # ticks ins"
| "ticks (i # ins) = ticks ins"


section \<open>Concrete pages\<close>

text \<open>An element with nothing set, and a document node.\<close>

definition plain :: node_data where
  "plain = \<lparr>nodeType = 1, tagName = Some ''DIV'', el_id = Some [], className = Some [],
     textContent = Some [], dataset = Some [], el_name = None, el_type = None, el_value = None,
     role = None, href = None, target = None, form_id = None\<rparr>"

definition document_node :: node_data where
  "document_node = \<lparr>nodeType = 9, tagName = None, el_id = None, className = None,
     textContent = None, dataset = None, el_name = None, el_type = None, el_value = None,
     role = None, href = None, target = None, form_id = None\<rparr>"




text \<open>
  The number of the first \<open>k\<close> siblings that are elements with tag name \<open>tg\<close>. Only an
  element node has a tag name.
\<close>

definition same_tag_before :: "node list \<Rightarrow> nat \<Rightarrow> string option \<Rightarrow> nat" where
  "same_tag_before siblings k tg =
     length [s \<leftarrow> take k siblings. nodeType (props_of s) = 1 \<and> tagName (props_of s) = tg]"

text \<open>
  Every node from the position \<open>r\<close> up to, but not including, the root of the tree has a tag
  name. In a DOM this always holds of an element: a node with a parent that has a child is
  an element.
\<close>

fun element_chain :: "page \<Rightarrow> node_ref \<Rightarrow> bool" where
  "element_chain pg [] = True"
| "element_chain pg (k # p) =
     (case node_at (root pg) (k # p) of
        None \<Rightarrow> False
      | Some element \<Rightarrow> tagName (props_of element) \<noteq> None \<and> element_chain pg p)"

text \<open>A login page: the body holds a link with \<open>role="button"\<close> and a password field.\<close>

definition login_link :: node_data where
  "login_link = plain\<lparr>tagName := Some ''A'', role := Some ''button'', href := Some ''/reset'',
     target := Some []\<rparr>"

definition password_input :: node_data where
  "password_input = plain\<lparr>tagName := Some ''INPUT'', el_name := Some ''password'',
     el_type := Some ''password'', el_value := Some ''hunter2''\<rparr>"

definition login_page :: page where
  "login_page =
     \<lparr>root = Node document_node
        [Node (plain\<lparr>tagName := Some ''HTML''\<rparr>)
           [Node (plain\<lparr>tagName := Some ''HEAD''\<rparr>) [],
            Node (plain\<lparr>tagName := Some ''BODY''\<rparr>)
              [Node login_link [], Node password_input []]]],
      body = Some [1, 0], pathname = ''/login''\<rparr>"



text \<open>The target of a \<open>submit\<close> event dispatched on an element that is not a form.\<close>

definition stray_submit :: submit_target where
  "stray_submit =
     \<lparr>form_ident = Some ''wizard'', form_name = None, form_action = None, form_method = None,
      elements = None\<rparr>"

text \<open>Elements on their own, with class names that hold a tab and only spaces.\<close>

definition tab_class :: string where
  "tab_class = ''a'' @ [CHR 0x09] @ ''b''"

definition tab_page :: page where
  "tab_page = \<lparr>root = Node (plain\<lparr>className := Some tab_class\<rparr>) [], body = None, pathname = ''/''\<rparr>"

definition spaces_page :: page where
  "spaces_page = \<lparr>root = Node (plain\<lparr>className := Some ''  ''\<rparr>) [], body = None, pathname = ''/''\<rparr>"

definition padded_page :: page where
  "padded_page =
     \<lparr>root = Node (plain\<lparr>className := Some '' btn  primary ''\<rparr>) [], body = None, pathname = ''/''\<rparr>"

text \<open>
  The reading of \<open>elementClasses\<close> in the specification: the pieces between runs of white
  space of any kind, joined by single spaces, and no field when there is no piece.
\<close>

fun whitespace_pieces :: "string \<Rightarrow> string list" where
  "whitespace_pieces [] = [[]]"
| "whitespace_pieces (c # cs) =
     (if js_whitespace c then [] # whitespace_pieces cs
      else (case whitespace_pieces cs of [] \<Rightarrow> [[c]] | piece # pieces \<Rightarrow> (c # piece) # pieces))"

definition spec_elementClasses :: "string \<Rightarrow> jsval option" where
  "spec_elementClasses cn =
     (let pieces = filter (\<lambda>c. c \<noteq> []) (whitespace_pieces cn)
      in if pieces = [] then None else Some (Str (join '' '' pieces)))"

definition link_props :: props where
  "link_props = [(''elementType'', Str ''a''), (''page'', Str ''/login''),
                 (''xpath'', Str ''/html/body/a[1]'')]"


text \<open>A configuration argument that turns every tracker option off.\<close>

definition all_off :: custom_config where
  "all_off =
     \<lparr>set_trackClicks = Some False, set_trackForms = Some False, set_trackScroll = Some False,
      set_trackErrors = Some False, set_trackPerformance = Some False,
      set_trackVisibility = Some False, set_captureText = None, set_captureAttributes = None,
      set_debounceScroll = None\<rparr>"

definition no_custom :: custom_config where
  "no_custom =
     \<lparr>set_trackClicks = None, set_trackForms = None, set_trackScroll = None,
      set_trackErrors = None, set_trackPerformance = None,
      set_trackVisibility = None, set_captureText = None, set_captureAttributes = None,
      set_debounceScroll = None\<rparr>"

definition email_input :: node_data where
  "email_input = plain\<lparr>tagName := Some ''INPUT'', el_id := Some ''email'', el_name := Some ''email'',
     el_type := Some ''email'', form_id := Some ''signup''\<rparr>"

text \<open>
  A session in which the sink never appears during the hundred polls, and is there only
  afterwards, followed by a click; and the two failed polls before a successful third.
\<close>

definition never_ready :: "input list" where
  "never_ready = replicate 100 (IntervalTick False 0) @ [IntervalTick True 0, Click login_page [0, 1, 0]]"

definition two_misses :: "input list" where
  "two_misses = [IntervalTick False 50, IntervalTick False 100]"

section \<open>Scroll tracker: invariant and milestone theorems\<close>

lemma forEach_char:
  "distinct ms \<Longrightarrow>
   milestones_forEach p ms (trk, out) =
     (trk \<union> {m \<in> set ms. js_ge p (Fin m)},
      out @ map depth_event [m \<leftarrow> ms. js_ge p (Fin m) \<and> m \<notin> trk])"
proof (induction ms arbitrary: trk out)
  case Nil
  then show ?case by simp
next
  case (Cons a ms)
  then have "\<And>m. m \<in> set ms \<Longrightarrow> m \<noteq> a" by auto
  then have f: "[m \<leftarrow> ms. js_ge p (Fin m) \<and> m \<noteq> a \<and> m \<notin> trk] = [m \<leftarrow> ms. js_ge p (Fin m) \<and> m \<notin> trk]"
    by (intro filter_cong) auto
  from Cons show ?case
    by (auto simp: f)
qed

lemma js_lt_NaN: "js_lt a NaN = False"
  by (cases a) simp_all

lemma distinct_milestones: "distinct milestones"
  by (simp add: milestones_def)


lemma scroll_inv_init: "scroll_inv scroll_init"
  by (auto simp: scroll_inv_def scroll_init_def milestones_def js_le_def)

lemma js_order:
  "a \<noteq> NaN \<Longrightarrow> js_le a a"
  "js_gt p a \<Longrightarrow> js_le a p"
  "js_gt p a \<Longrightarrow> p \<noteq> NaN"
  "js_gt p a \<Longrightarrow> js_le (Fin m) a \<Longrightarrow> js_ge p (Fin m)"
  "a \<noteq> NaN \<Longrightarrow> \<not> js_gt p a \<Longrightarrow> js_ge p (Fin m) \<Longrightarrow> js_le (Fin m) a"
  by (cases a; cases p; simp add: js_le_def js_gt_def)+

lemma trackScrollDepth_at_step:
  assumes inv: "scroll_inv st" and step: "trackScrollDepth_at p st = (st', evs)"
  shows "scroll_inv st'"
    and "evs = map depth_event [m \<leftarrow> milestones. js_ge p (Fin m) \<and> m \<notin> tracked st]"
    and "js_le (maxScroll st) (maxScroll st')"
    and "tracked st' = tracked st \<union> {m \<in> set milestones. js_ge p (Fin m)}"
proof -
  show "scroll_inv st'" 
    using inv step
    by (auto simp: trackScrollDepth_at_def forEach_char [OF distinct_milestones] scroll_inv_def
          js_le_def dest: js_order split: if_splits)
  show "evs = map depth_event [m \<leftarrow> milestones. js_ge p (Fin m) \<and> m \<notin> tracked st]"
  proof (cases "js_gt p (maxScroll st)")
    case True
    then show ?thesis using step
      by (auto simp: trackScrollDepth_at_def forEach_char [OF distinct_milestones])
  next
    case False
    have "[m \<leftarrow> milestones. js_ge p (Fin m) \<and> m \<notin> tracked st] = []"
      using inv False by (auto simp: filter_empty_conv scroll_inv_def dest: js_order(5))
    then show ?thesis using step False by (simp add: trackScrollDepth_at_def)
  qed
  show "js_le (maxScroll st) (maxScroll st')"
    using inv step
    by (auto simp: trackScrollDepth_at_def forEach_char [OF distinct_milestones] scroll_inv_def
          dest: js_order split: if_splits)
  show "tracked st' = tracked st \<union> {m \<in> set milestones. js_ge p (Fin m)}"
    using inv step
    by (auto simp: trackScrollDepth_at_def forEach_char [OF distinct_milestones] scroll_inv_def
          dest: js_order(5) split: if_splits)
qed

lemma session_inv_step:
  assumes "session_inv (st, out)" and "trackScrollDepth_at p st = (st', evs)"
  shows "session_inv (st', out @ evs)"
proof -
  from assms(1) obtain ms where inv: "scroll_inv st"
    and ms: "out = map depth_event ms" "distinct ms" "set ms = tracked st"
    by (auto simp: session_inv_def)
  note s = trackScrollDepth_at_step [OF inv assms(2)]
  let ?new = "[m \<leftarrow> milestones. js_ge p (Fin m) \<and> m \<notin> tracked st]"
  have "out @ evs = map depth_event (ms @ ?new)" using ms s(2) by simp
  moreover have "distinct (ms @ ?new)" using ms distinct_milestones by auto
  moreover have "set (ms @ ?new) = tracked st'" using ms s(4) by auto
  ultimately show ?thesis using s(1) unfolding session_inv_def fst_conv snd_conv by blast
qed

lemma session_inv_run:
  "session_inv acc \<Longrightarrow> session_inv (scroll_session rnd acc ws)"
proof (induction ws arbitrary: acc)
  case Nil
  then show ?case by simp
next
  case (Cons w ws)
  obtain st out where acc: "acc = (st, out)" by (cases acc)
  obtain st' evs where step: "trackScrollDepth_at (scrollPercent rnd w) st = (st', evs)"
    by (cases "trackScrollDepth_at (scrollPercent rnd w) st")
  have "session_inv (st', out @ evs)"
    using session_inv_step Cons.prems acc step by blast
  then show ?case using Cons.IH acc step by (simp add: trackScrollDepth_def)
qed

lemma session_inv_start: "session_inv (scroll_init, [])"
  using scroll_inv_init by (simp add: session_inv_def scroll_init_def)



text \<open>
  Claim C7. After any history of the session, one tick emits the milestones that are at most
  the new percentage and not yet in the set, in the order of the milestone list, which is
  ascending. When the running maximum is 0 and the new percentage is 60, these are depth 25
  and then depth 50, and nothing else.
\<close>

theorem scroll_jump_in_order:
  "case scroll_session rnd (scroll_init, []) ws of (st, out) \<Rightarrow>
     snd (trackScrollDepth rnd w st) =
       map depth_event [m \<leftarrow> milestones. js_ge (scrollPercent rnd w) (Fin m) \<and> m \<notin> tracked st]
     \<and> sorted_wrt (<) milestones
     \<and> (maxScroll st = Fin 0 \<and> scrollPercent rnd w = Fin 60 \<longrightarrow>
          snd (trackScrollDepth rnd w st) = [depth_event 25, depth_event 50])"
proof -
  obtain st out where run: "scroll_session rnd (scroll_init, []) ws = (st, out)"
    by (cases "scroll_session rnd (scroll_init, []) ws")
  obtain st' evs where step: "trackScrollDepth_at (scrollPercent rnd w) st = (st', evs)"
    by (cases "trackScrollDepth_at (scrollPercent rnd w) st")
  have "session_inv (st, out)"
    using session_inv_run [OF session_inv_start, of rnd ws] run by simp
  then have inv: "scroll_inv st" by (simp add: session_inv_def)
  note s = trackScrollDepth_at_step [OF inv step]
  have asc: "sorted_wrt (<) milestones" by (simp add: milestones_def)
  have general: "snd (trackScrollDepth rnd w st) =
       map depth_event [m \<leftarrow> milestones. js_ge (scrollPercent rnd w) (Fin m) \<and> m \<notin> tracked st]"
    using s(2) by (simp add: trackScrollDepth_def step)
  have jump: "snd (trackScrollDepth rnd w st) = [depth_event 25, depth_event 50]"
    if "maxScroll st = Fin 0 \<and> scrollPercent rnd w = Fin 60"
  proof -
    have "tracked st = {}" using inv that by (auto simp: scroll_inv_def milestones_def js_le_def)
    then show ?thesis unfolding general using that by (simp add: milestones_def)
  qed
  show ?thesis unfolding run prod.case using general asc jump by blast
qed

lemma exact_round_60: "exact_round 600 1000 = 60"
  unfolding exact_round_def by (rule floor_unique) simp_all

text \<open>The first tick of a session, at 600 of 1000 scrollable pixels.\<close>

theorem scroll_jump_in_order_witness:
  "maxScroll (fst (scroll_session exact_round (scroll_init, []) [])) = Fin 0
   \<and> scrollPercent exact_round w60 = Fin 60
   \<and> snd (trackScrollDepth exact_round w60 scroll_init) = [depth_event 25, depth_event 50]"
  using scroll_jump_in_order [where rnd = exact_round and ws = "[]" and w = w60]
  by (simp add: scroll_init_def scrollPercent_def scrollTop_def docHeight_def exact_round_60 w60_def
      milestones_def)

text \<open>
  Claim C9. The division is not guarded. When \<open>scrollHeight\<close> equals \<open>innerHeight\<close>: a
  zero \<open>scrollTop\<close> gives \<open>NaN\<close>, the tick changes nothing and emits nothing; a positive
  \<open>scrollTop\<close> gives \<open>Infinity\<close>, and the tick emits every milestone not yet in the set,
  after which all five are in it.
\<close>

theorem zero_height_page:
  "case scroll_session rnd (scroll_init, []) ws of (st, out) \<Rightarrow>
     docHeight w = 0 \<longrightarrow>
       (scrollTop w = 0 \<longrightarrow>
          scrollPercent rnd w = NaN \<and> trackScrollDepth rnd w st = (st, []))
     \<and> (0 < scrollTop w \<longrightarrow>
          scrollPercent rnd w = PosInf
          \<and> snd (trackScrollDepth rnd w st) = map depth_event [m \<leftarrow> milestones. m \<notin> tracked st]
          \<and> tracked (fst (trackScrollDepth rnd w st)) = set milestones)"
proof -
  obtain st out where run: "scroll_session rnd (scroll_init, []) ws = (st, out)"
    by (cases "scroll_session rnd (scroll_init, []) ws")
  have "session_inv (st, out)"
    using session_inv_run [OF session_inv_start, of rnd ws] run by simp
  then have inv: "scroll_inv st" by (simp add: session_inv_def)
  have nan: "scrollPercent rnd w = NaN \<and> trackScrollDepth rnd w st = (st, [])"
    if "docHeight w = 0" "scrollTop w = 0"
    using that by (simp add: scrollPercent_def trackScrollDepth_def trackScrollDepth_at_def js_gt_def js_lt_NaN)
  have inf: "scrollPercent rnd w = PosInf
          \<and> snd (trackScrollDepth rnd w st) = map depth_event [m \<leftarrow> milestones. m \<notin> tracked st]
          \<and> tracked (fst (trackScrollDepth rnd w st)) = set milestones"
    if "docHeight w = 0" "0 < scrollTop w"
  proof -
    have p: "scrollPercent rnd w = PosInf" using that by (simp add: scrollPercent_def)
    obtain st' evs where step: "trackScrollDepth_at PosInf st = (st', evs)"
      by (cases "trackScrollDepth_at PosInf st")
    note s = trackScrollDepth_at_step [OF inv step]
    have "tracked st \<subseteq> set milestones" using inv by (auto simp: scroll_inv_def)
    then have "tracked st' = set milestones" using s(4) by auto
    then show ?thesis using p s(2) by (simp add: trackScrollDepth_def step)
  qed
  show ?thesis unfolding run prod.case using nan inf by blast
qed

text \<open>A page as tall as the viewport, at rest and with a positive offset.\<close>

theorem zero_height_page_witness:
  "docHeight w_top = 0 \<and> scrollTop w_top = 0
   \<and> scrollPercent exact_round w_top = NaN
   \<and> trackScrollDepth exact_round w_top scroll_init = (scroll_init, [])
   \<and> docHeight w_bounce = 0 \<and> 0 < scrollTop w_bounce
   \<and> scrollPercent exact_round w_bounce = PosInf
   \<and> snd (trackScrollDepth exact_round w_bounce scroll_init) =
       [depth_event 25, depth_event 50, depth_event 75, depth_event 90, depth_event 100]"
  using zero_height_page [where rnd = exact_round and ws = "[]" and w = w_top]
    zero_height_page [where rnd = exact_round and ws = "[]" and w = w_bounce]
  by (simp add: scroll_init_def scrollTop_def docHeight_def w_top_def w_bounce_def milestones_def)

section \<open>Structural path: theorems\<close>

lemma sibling_loop_count:
  "k < length cs \<Longrightarrow>
   sibling_loop cs i (i + k) tg ix = Some (ix + same_tag_before cs k tg)"
proof (induction cs arbitrary: i k ix)
  case Nil
  then show ?case by simp
next
  case (Cons c cs)
  show ?case
  proof (cases k)
    case 0
    then show ?thesis by (simp add: same_tag_before_def)
  next
    case (Suc j)
    then have "j < length cs" using Cons.prems by simp
    from Cons.IH [OF this, of "Suc i"] Suc show ?thesis
      by (simp add: same_tag_before_def)
  qed
qed

lemma node_at_Cons:
  "node_at t (k # p) = Some element \<Longrightarrow>
   \<exists>parent. node_at t p = Some parent \<and> k < length (childNodes parent) \<and> element = childNodes parent ! k"
  by (auto split: option.splits if_splits)





text \<open>On such a chain \<open>getXPath\<close> returns a string.\<close>

lemma getXPath_returns: "element_chain pg r \<Longrightarrow> \<exists>path. getXPath pg r = Inr path"
proof (induction r)
  case Nil
  then show ?case by (simp split: option.split)
next
  case (Cons k p)
  then obtain element tg where el: "node_at (root pg) (k # p) = Some element"
    and tg: "tagName (props_of element) = Some tg" and up: "element_chain pg p"
    by (auto split: option.splits)
  from node_at_Cons [OF el] obtain parent where par: "node_at (root pg) p = Some parent"
    and k: "k < length (childNodes parent)" by auto
  from Cons.IH [OF up] obtain parentPath where pp: "getXPath pg p = Inr parentPath" by auto
  have loop: "sibling_loop (childNodes parent) 0 k (Some tg) 0 =
      Some (same_tag_before (childNodes parent) k (Some tg))"
    using sibling_loop_count [OF k, of 0 "Some tg" 0] by simp
  show ?case
    using el par pp tg loop by (simp del: node_at.simps split: option.split)
qed



section \<open>Descriptor: which keys are written\<close>

lemma map_of_set_prop:
  "map_of (set_prop key v ps) k = (if k = key then Some v else map_of ps k)"
  by (induction ps) auto

lemma when_truthy_other:
  "k \<noteq> key \<Longrightarrow> map_of (when_truthy x (\<lambda>s. set_prop key (g s)) ps) k = map_of ps k"
  by (simp add: when_truthy_def map_of_set_prop split: option.splits)

lemma when_truthy_same:
  "map_of (when_truthy x (\<lambda>s. set_prop key (g s)) ps) key =
     (case x of None \<Rightarrow> map_of ps key | Some s \<Rightarrow> if s \<noteq> [] then Some (g s) else map_of ps key)"
  by (simp add: when_truthy_def map_of_set_prop split: option.splits)

lemma js_if_other:
  "(\<And>qs. map_of (f qs) k = map_of qs k) \<Longrightarrow> map_of (js_if c f ps) k = map_of ps k"
  by (simp add: js_if_def)

lemma gaId_loop_other:
  "k \<noteq> ''gaId'' \<Longrightarrow> map_of (gaId_loop pg gaIdElement maxDepth ps) k = map_of ps k"
  by (induction pg gaIdElement maxDepth ps rule: gaId_loop.induct)
     (simp_all add: map_of_set_prop split: option.splits)

lemma copy_dataset_other:
  assumes "\<And>key. k \<noteq> ''data_'' @ key"
  shows "map_of (copy_dataset d ps) k = map_of ps k"
proof (cases d)
  case None
  then show ?thesis by (simp add: copy_dataset_def)
next
  case (Some ds)
  have "map_of (foldl (\<lambda>acc key. set_prop (''data_'' @ key) (f key) acc) qs keys) k = map_of qs k"
    for f :: "string \<Rightarrow> jsval" and qs keys
    using assms by (induction keys arbitrary: qs) (simp_all add: map_of_set_prop)
  then show ?thesis using Some by (simp add: copy_dataset_def)
qed

lemma not_data_key:
  "''elementClasses'' \<noteq> ''data_'' @ key" "''elementValue'' \<noteq> ''data_'' @ key"
  by simp_all

lemma fields_classes:
  "map_of (descriptor_fields cfg pg r element tg) ''elementClasses'' =
     (case className element of
        None \<Rightarrow> None
      | Some cn \<Rightarrow> if cn \<noteq> [] then Some (Str (class_list cn)) else None)"
proof -
  have frame: "map_of (js_if c (when_truthy x (\<lambda>s. set_prop key (g s))) ps) ''elementClasses''
      = map_of ps ''elementClasses''" if "''elementClasses'' \<noteq> key" for c x key g ps
    using that by (intro js_if_other when_truthy_other)
  have data: "map_of (js_if c (copy_dataset d) ps) ''elementClasses'' = map_of ps ''elementClasses''"
    for c d ps
    by (intro js_if_other copy_dataset_other not_data_key)
  show ?thesis
    unfolding descriptor_fields_def Let_def
    by (simp add: frame data when_truthy_other gaId_loop_other when_truthy_same
          split: option.split)
qed


lemma getElementProps_Inr:
  assumes "getElementProps cfg pg r = Inr props" "node_at (root pg) r = Some (Node element children)"
  shows "\<exists>tg path. tagName element = Some tg \<and> getXPath pg r = Inr path
      \<and> props = set_prop ''xpath'' (Str path) (descriptor_fields cfg pg r element tg)"
  using assms by (simp add: getElementProps_def split: option.splits sum.splits)

lemma getElementProps_key:
  assumes "getElementProps cfg pg r = Inr props" "node_at (root pg) r = Some (Node element children)"
    and "k \<noteq> ''xpath''"
  shows "\<exists>tg. map_of props k = map_of (descriptor_fields cfg pg r element tg) k"
  using getElementProps_Inr [OF assms(1,2)] assms(3) by (auto simp: map_of_set_prop)

text \<open>The descriptor of an element on such a chain is built without an exception.\<close>

lemma getElementProps_returns:
  assumes "node_at (root pg) r = Some (Node element children)" "tagName element = Some tg"
    and "element_chain pg r"
  shows "\<exists>props. getElementProps cfg pg r = Inr props"
  using assms getXPath_returns [OF assms(3)] by (auto simp: getElementProps_def)

section \<open>Class names\<close>

lemma split_not_Nil: "split sep s \<noteq> []"
  by (induction s) (auto split: list.splits)

lemma join_split: "join [sep] (split sep s) = s"
proof (induction s)
  case Nil
  then show ?case by simp
next
  case (Cons c cs)
  obtain piece pieces where sp: "split sep cs = piece # pieces"
    using split_not_Nil [of sep cs] by (cases "split sep cs") auto
  with Cons show ?case by (cases pieces) auto
qed

lemma split_no_sep: "piece \<in> set (split sep s) \<Longrightarrow> sep \<notin> set piece"
  by (induction s arbitrary: piece) (auto split: if_splits list.splits)

text \<open>
  Claim C8, as the code has it. For an element whose \<open>className\<close> is the string \<open>cn\<close>:
  \<open>elementClasses\<close> is absent when \<open>cn\<close> is empty, and otherwise it is the non-empty pieces of
  \<open>cn\<close> between space characters, joined by single spaces. The pieces are those of
  \<open>split\<close>: joined by a space they give \<open>cn\<close> back and none holds a space, so that a tab or a
  newline stays inside its piece.
\<close>

theorem elementClasses_space_pieces:
  assumes "node_at (root pg) r = Some (Node element children)" "className element = Some cn"
    and "getElementProps cfg pg r = Inr props"
  shows "map_of props ''elementClasses'' =
      (if cn = [] then None
       else Some (Str (join '' '' (filter (\<lambda>c. c \<noteq> []) (split (CHR '' '') cn)))))
    \<and> join '' '' (split (CHR '' '') cn) = cn
    \<and> (\<forall>piece \<in> set (split (CHR '' '') cn). CHR '' '' \<notin> set piece)"
proof -
  from getElementProps_key [OF assms(3,1), of "''elementClasses''"]
  have "map_of props ''elementClasses'' =
      (if cn = [] then None else Some (Str (class_list cn)))"
    using assms(2) by (auto simp: fields_classes)
  then show ?thesis
    using join_split [of "CHR '' ''" cn] split_no_sep [of _ "CHR '' ''" cn]
    by (auto simp: class_list_def)
qed

theorem elementClasses_space_pieces_witness:
  "node_at (root padded_page) [] = Some (Node (plain\<lparr>className := Some '' btn  primary ''\<rparr>) [])
   \<and> getElementProps default_config padded_page [] =
       Inr [(''elementType'', Str ''div''), (''page'', Str ''/''),
            (''elementClasses'', Str ''btn primary''), (''xpath'', Str [])]
   \<and> map_of [(''elementType'', Str ''div''), (''page'', Str ''/''),
            (''elementClasses'', Str ''btn primary''), (''xpath'', Str [])] ''elementClasses'' =
       Some (Str (join '' '' (filter (\<lambda>c. c \<noteq> []) (split (CHR '' '') '' btn  primary ''))))"
proof -
  have el: "node_at (root padded_page) [] = Some (Node (plain\<lparr>className := Some '' btn  primary ''\<rparr>) [])"
    by code_simp
  have cn: "className (plain\<lparr>className := Some '' btn  primary ''\<rparr>) = Some '' btn  primary ''"
    by simp
  have run: "getElementProps default_config padded_page [] =
       Inr [(''elementType'', Str ''div''), (''page'', Str ''/''),
            (''elementClasses'', Str ''btn primary''), (''xpath'', Str [])]"
    by code_simp
  from elementClasses_space_pieces [OF el cn run] el run show ?thesis by simp
qed

text \<open>
  The claim as stated fails: a tab between two class names is kept, where the claim has a
  single space; and a class name of two spaces gives the field with the empty string, where
  the claim has no field.
\<close>

theorem elementClasses_counterexample:
  "getElementProps default_config tab_page [] =
       Inr [(''elementType'', Str ''div''), (''page'', Str ''/''),
            (''elementClasses'', Str tab_class), (''xpath'', Str [])]
   \<and> spec_elementClasses tab_class = Some (Str ''a b'')
   \<and> tab_class \<noteq> ''a b''
   \<and> getElementProps default_config spaces_page [] =
       Inr [(''elementType'', Str ''div''), (''page'', Str ''/''),
            (''elementClasses'', Str []), (''xpath'', Str [])]
   \<and> spec_elementClasses ''  '' = None"
  by code_simp

section \<open>Click classification\<close>

lemma tracked_call_eq: "tracked_call a = tracked_call b \<longleftrightarrow> a = b"
  by (auto simp: tracked_call_def)

lemma click_listener_never_throws: "thrown (click_listener cfg pg r) = None"
  by (simp add: click_listener_def tracked_call_def split: sum.split)

text \<open>
  Claim C6. For a click on an element whose descriptor is \<open>props\<close>, the listener makes one
  call, and its event name follows the priority order: a \<open>button\<close> tag gives
  \<open>button_clicked\<close> whatever the role; otherwise an \<open>a\<close> tag gives \<open>link_clicked\<close>, with
  \<open>href\<close> and \<open>target\<close> added to the descriptor and every other key as it was, whatever
  the role; otherwise the role \<open>button\<close> gives \<open>button_clicked\<close>; otherwise the event is
  \<open>element_clicked\<close>.
\<close>

theorem click_event_priority:
  assumes "node_at (root pg) r = Some (Node element children)" "tagName element = Some tg"
    and "getElementProps cfg pg r = Inr props"
  shows "(toLowerCase tg = ''button'' \<longrightarrow>
            click_listener cfg pg r = tracked_call (''button_clicked'', props))
    \<and> (toLowerCase tg = ''a'' \<longrightarrow>
          (\<exists>ps. click_listener cfg pg r = tracked_call (''link_clicked'', ps)
             \<and> map_of ps ''href'' = Some (prop_val (href element))
             \<and> map_of ps ''target'' = Some (prop_val (target element))
             \<and> (\<forall>k. k \<noteq> ''href'' \<and> k \<noteq> ''target'' \<longrightarrow> map_of ps k = map_of props k)))
    \<and> (toLowerCase tg \<noteq> ''button'' \<and> toLowerCase tg \<noteq> ''a'' \<and> role element = Some ''button'' \<longrightarrow>
            click_listener cfg pg r = tracked_call (''button_clicked'', props))
    \<and> (toLowerCase tg \<noteq> ''button'' \<and> toLowerCase tg \<noteq> ''a'' \<and> role element \<noteq> Some ''button'' \<longrightarrow>
            click_listener cfg pg r = tracked_call (''element_clicked'', props))"
  using assms by (simp add: click_listener_def click_try_def map_of_set_prop tracked_call_eq)

theorem click_event_priority_witness:
  "node_at (root login_page) [0, 1, 0] = Some (Node login_link [])
   \<and> tagName login_link = Some ''A'' \<and> role login_link = Some ''button''
   \<and> getElementProps default_config login_page [0, 1, 0] = Inr link_props
   \<and> toLowerCase ''A'' = ''a''
   \<and> (\<exists>ps. click_listener default_config login_page [0, 1, 0] = tracked_call (''link_clicked'', ps)
          \<and> map_of ps ''href'' = Some (Str ''/reset''))"
proof -
  have el: "node_at (root login_page) [0, 1, 0] = Some (Node login_link [])" by code_simp
  have tg: "tagName login_link = Some ''A''" and rl: "role login_link = Some ''button''"
    and hr: "prop_val (href login_link) = Str ''/reset''"
    by code_simp+
  have run: "getElementProps default_config login_page [0, 1, 0] = Inr link_props" by code_simp
  have low: "toLowerCase ''A'' = ''a''" by code_simp
  from click_event_priority [OF el tg run] low hr
  have "\<exists>ps. click_listener default_config login_page [0, 1, 0] = tracked_call (''link_clicked'', ps)
          \<and> map_of ps ''href'' = Some (Str ''/reset'')"
    by auto
  with el tg rl run low show ?thesis by blast
qed

section \<open>Password fields\<close>





section \<open>Exceptions that leave a listener\<close>

text \<open>
  Claim C1 does not hold of the code. The click listener wraps its body in \<open>try\<close>/\<open>catch\<close>
  and never lets an exception out. The submit listener has no \<open>try\<close>: for a \<open>submit\<close> event
  whose target has no \<open>elements\<close>, reading \<open>form.elements.length\<close> throws a \<open>TypeError\<close>
  that leaves the listener, and no call is made; in a session started with the default
  options the exception reaches the page.
\<close>

theorem submit_listener_throws:
  "submit_listener stray_submit = \<lparr>calls = [], logged = [], thrown = Some TypeError\<rparr>
   \<and> uncaught (step rnd timing (start no_custom True timing now) (Submit stray_submit)) = [TypeError]
   \<and> thrown (click_listener cfg pg r) = None"
proof -
  have thr: "submit_listener stray_submit = \<lparr>calls = [], logged = [], thrown = Some TypeError\<rparr>"
    by (simp add: submit_listener_def submit_props_def stray_submit_def throws_def)
  have "SubmitListener \<in> set (listeners (start no_custom True timing now))"
    "uncaught (start no_custom True timing now) = []"
    by (simp_all add: start_def initializeTracking_def merge_config_def default_config_def
        override_def no_custom_def)
  then have "uncaught (step rnd timing (start no_custom True timing now) (Submit stray_submit)) = [TypeError]"
    by (simp add: thr apply_effects_def)
  with thr click_listener_never_throws [of cfg pg r] show ?thesis by blast
qed

section \<open>Readiness gate\<close>

lemma run_append: "run rnd timing s (xs @ ys) = run rnd timing (run rnd timing s xs) ys"
  by (induction xs arbitrary: s) simp_all

lemma step_inert:
  "polling s = None \<Longrightarrow> listeners s = [] \<Longrightarrow> step rnd timing s i = s"
  by (cases i) (simp_all add: interval_tick_def)

lemma run_inert:
  "polling s = None \<Longrightarrow> listeners s = [] \<Longrightarrow> run rnd timing s ins = s"
  by (induction ins) (simp_all add: step_inert)

lemma step_waiting:
  "listeners s = [] \<Longrightarrow> ticks [i] = [] \<Longrightarrow> step rnd timing s i = s"
  by (cases i) simp_all

lemma ticks_Cons: "ticks (i # ins) = ticks [i] @ ticks ins"
  by (cases i) simp_all

lemma absent_run:
  assumes "polling s = Some n" "listeners s = []" "n < maxAttempts"
    and "\<forall>b \<in> set (take (maxAttempts - n) (ticks ins)). \<not> b"
  shows "run rnd timing s ins =
     (if maxAttempts - n \<le> length (ticks ins)
      then s\<lparr>polling := None, console := console s @ [ErrorNotInitialized]\<rparr>
      else s\<lparr>polling := Some (n + length (ticks ins))\<rparr>)"
  using assms
proof (induction ins arbitrary: s n)
  case Nil
  then show ?case by simp
next
  case (Cons i ins)
  show ?case
  proof (cases "ticks [i]")
    case Nil
    then have "step rnd timing s i = s" using Cons.prems(2) by (rule step_waiting [rotated])
    moreover have "ticks (i # ins) = ticks ins" using Nil ticks_Cons [of i ins] by simp
    ultimately show ?thesis using Cons.IH [of s n] Cons.prems by simp
  next
    case (Cons b bs)
    then obtain now where i: "i = IntervalTick b now" by (cases i) simp_all
    have tk: "ticks (i # ins) = b # ticks ins" using i by simp
    have "\<not> b" using Cons.prems(3,4) tk by (cases "maxAttempts - n") auto
    show ?thesis
    proof (cases "Suc n \<ge> maxAttempts")
      case True
      let ?d = "s\<lparr>polling := None, console := console s @ [ErrorNotInitialized]\<rparr>"
      have "step rnd timing s i = ?d"
        using i \<open>\<not> b\<close> True Cons.prems(1) by (simp add: interval_tick_def)
      moreover have "run rnd timing ?d ins = ?d" using Cons.prems(2) by (simp add: run_inert)
      ultimately show ?thesis using True tk Cons.prems(3) by simp
    next
      case False
      let ?s = "s\<lparr>polling := Some (Suc n)\<rparr>"
      have st: "step rnd timing s i = ?s"
        using i \<open>\<not> b\<close> False Cons.prems(1) by (simp add: interval_tick_def)
      have "\<forall>b \<in> set (take (maxAttempts - Suc n) (ticks ins)). \<not> b"
      proof
        fix c assume "c \<in> set (take (maxAttempts - Suc n) (ticks ins))"
        moreover have "maxAttempts - n = Suc (maxAttempts - Suc n)" using False by simp
        ultimately have "c \<in> set (take (maxAttempts - n) (b # ticks ins))"
          by simp
        then show "\<not> c" using Cons.prems(4) unfolding tk by blast
      qed
      from Cons.IH [of ?s "Suc n", OF _ _ _ this] Cons.prems(2) False
      have "run rnd timing ?s ins =
         (if maxAttempts - Suc n \<le> length (ticks ins)
          then ?s\<lparr>polling := None, console := console ?s @ [ErrorNotInitialized]\<rparr>
          else ?s\<lparr>polling := Some (Suc n + length (ticks ins))\<rparr>)"
        by simp
      then show ?thesis using st tk False by auto
    qed
  qed
qed

lemma logged_click: "logged (click_listener cfg pg r) = [] \<or> logged (click_listener cfg pg r) = [ErrorTrackingClick]"
  by (simp add: click_listener_def tracked_call_def split: sum.split)

lemma logged_others:
  "logged (submit_listener form) = []"
  "logged (error_listener e) = []"
  "logged (rejection_listener reason) = []"
  "logged (performance_timer p) = []"
  by (simp_all add: submit_listener_def error_listener_def rejection_listener_def
      performance_timer_def tracked_call_def throws_def Let_def
      split: sum.split option.split jsval.split)

lemma logged_visibility: "visibility_listener hidden now t = (t', fx) \<Longrightarrow> logged fx = []"
  by (auto simp: visibility_listener_def tracked_call_def split: if_splits)

lemma logged_focus: "focus_listener element seen = (seen', fx) \<Longrightarrow> logged fx = []"
  by (auto simp: focus_listener_def tracked_call_def nothing_def Let_def split: if_splits)

lemma apply_effects_fields:
  "polling (apply_effects fx s) = polling s"
  "listeners (apply_effects fx s) = listeners s"
  "console (apply_effects fx s) = console s @ logged fx"
  by (simp_all add: apply_effects_def)

lemma step_ready:
  assumes "polling s = None"
  shows "polling (step rnd timing s i) = None"
    and "listeners (step rnd timing s i) = listeners s"
    and "e \<noteq> ErrorTrackingClick \<Longrightarrow>
         count_list (console (step rnd timing s i)) e = count_list (console s) e"
proof -
  show "polling (step rnd timing s i) = None"
    using assms by (cases i) (simp_all add: interval_tick_def apply_effects_fields split: prod.split)
  show "listeners (step rnd timing s i) = listeners s"
    using assms by (cases i) (simp_all add: interval_tick_def apply_effects_fields split: prod.split)
  show "count_list (console (step rnd timing s i)) e = count_list (console s) e"
    if "e \<noteq> ErrorTrackingClick"
  proof (cases i)
    case (Click pg r)
    then show ?thesis using that logged_click [of "config s" pg r]
      by (auto simp: apply_effects_fields)
  next
    case (VisibilityChange hidden now)
    then show ?thesis
      by (auto simp: apply_effects_fields split: prod.split dest: logged_visibility)
  next
    case (Focus element)
    then show ?thesis
      by (auto simp: apply_effects_fields split: prod.split dest: logged_focus)
  qed (use assms in \<open>simp_all add: interval_tick_def apply_effects_fields logged_others split: prod.split\<close>)
qed

lemma run_ready:
  assumes "polling s = None"
  shows "polling (run rnd timing s ins) = None"
    and "listeners (run rnd timing s ins) = listeners s"
    and "e \<noteq> ErrorTrackingClick \<Longrightarrow>
         count_list (console (run rnd timing s ins)) e = count_list (console s) e"
  using assms by (induction ins arbitrary: s) (simp_all add: step_ready)

lemma start_absent:
  "start custom False timing now =
     \<lparr>config = merge_config default_config custom, polling = Some 0, listeners = [],
      console = [LogWaiting], sent = [], uncaught = [], scroll = scroll_init,
      trackedFields = {}, startTime = now\<rparr>"
  by (simp add: start_def)

lemma initializeTracking_listeners:
  "listeners s = [] \<Longrightarrow>
   FocusListener \<in> set (listeners (initializeTracking timing now s))
   \<and> distinct (listeners (initializeTracking timing now s))"
  by (auto simp: initializeTracking_def)

text \<open>
  Claim C3. \<open>start\<close> finds the sink absent. If it is absent at each of the first hundred
  firings of the interval, then whatever else happens on the page, and however long, no
  listener is registered, no call reaches the sink, initialization never runs, and the
  failure is written to the console once the hundredth firing has happened, exactly once,
  the interval being cleared. If instead the sink is there at a firing before which fewer
  than a hundred firings found it absent, the interval is cleared at that firing,
  initialization has run exactly once however the session goes on, the listeners stay those
  it registered, each once, and the failure is never written.
\<close>

theorem readiness_gate:
  "((\<forall>b \<in> set (take 100 (ticks ins)). \<not> b) \<longrightarrow>
      (let s = run rnd timing (start custom False timing now) ins
       in listeners s = [] \<and> sent s = [] \<and> uncaught s = []
          \<and> count_list (console s) LogStarting = 0
          \<and> count_list (console s) ErrorNotInitialized = (if 100 \<le> length (ticks ins) then 1 else 0)
          \<and> (100 \<le> length (ticks ins) \<longrightarrow> polling s = None)))
   \<and> ((\<forall>b \<in> set (ticks pre). \<not> b) \<and> length (ticks pre) < 100 \<longrightarrow>
      (let s1 = run rnd timing (start custom False timing now) (pre @ [IntervalTick True t]);
           s = run rnd timing (start custom False timing now) (pre @ IntervalTick True t # post)
       in polling s1 = None \<and> polling s = None
          \<and> FocusListener \<in> set (listeners s1) \<and> distinct (listeners s1)
          \<and> listeners s = listeners s1
          \<and> count_list (console s) LogStarting = 1
          \<and> count_list (console s) ErrorNotInitialized = 0))"
proof (intro conjI impI)
  let ?s0 = "start custom False timing now"
  assume "\<forall>b \<in> set (take 100 (ticks ins)). \<not> b"
  then have "run rnd timing ?s0 ins =
     (if maxAttempts - 0 \<le> length (ticks ins)
      then ?s0\<lparr>polling := None, console := console ?s0 @ [ErrorNotInitialized]\<rparr>
      else ?s0\<lparr>polling := Some (0 + length (ticks ins))\<rparr>)"
    by (intro absent_run) (simp_all add: start_absent maxAttempts_def)
  then show "let s = run rnd timing ?s0 ins
       in listeners s = [] \<and> sent s = [] \<and> uncaught s = []
          \<and> count_list (console s) LogStarting = 0
          \<and> count_list (console s) ErrorNotInitialized = (if 100 \<le> length (ticks ins) then 1 else 0)
          \<and> (100 \<le> length (ticks ins) \<longrightarrow> polling s = None)"
    by (simp add: start_absent maxAttempts_def Let_def)
next
  let ?s0 = "start custom False timing now"
  let ?w = "?s0\<lparr>polling := Some (length (ticks pre))\<rparr>"
  let ?s1 = "initializeTracking timing t (?w\<lparr>polling := None, console := console ?w @ [LogReady]\<rparr>)"
  assume a: "(\<forall>b \<in> set (ticks pre). \<not> b) \<and> length (ticks pre) < 100"
  then have "\<forall>b \<in> set (take (maxAttempts - 0) (ticks pre)). \<not> b"
    using set_take_subset by fastforce
  then have "run rnd timing ?s0 pre =
     (if maxAttempts - 0 \<le> length (ticks pre)
      then ?s0\<lparr>polling := None, console := console ?s0 @ [ErrorNotInitialized]\<rparr>
      else ?s0\<lparr>polling := Some (0 + length (ticks pre))\<rparr>)"
    by (intro absent_run) (simp_all add: start_absent maxAttempts_def)
  then have pre: "run rnd timing ?s0 pre = ?w" using a by (simp add: maxAttempts_def)
  have s1: "run rnd timing ?s0 (pre @ [IntervalTick True t]) = ?s1"
    by (simp add: run_append pre interval_tick_def)
  have s: "run rnd timing ?s0 (pre @ IntervalTick True t # post) = run rnd timing ?s1 post"
    by (simp add: run_append pre interval_tick_def)
  have p1: "polling ?s1 = None" by (simp add: initializeTracking_def)
  have l1: "FocusListener \<in> set (listeners ?s1) \<and> distinct (listeners ?s1)"
    by (rule initializeTracking_listeners) (simp add: start_absent)
  have c1: "count_list (console ?s1) LogStarting = 1" "count_list (console ?s1) ErrorNotInitialized = 0"
    by (simp_all add: initializeTracking_def start_absent)
  show "let s1 = run rnd timing ?s0 (pre @ [IntervalTick True t]);
           s = run rnd timing ?s0 (pre @ IntervalTick True t # post)
       in polling s1 = None \<and> polling s = None
          \<and> FocusListener \<in> set (listeners s1) \<and> distinct (listeners s1)
          \<and> listeners s = listeners s1
          \<and> count_list (console s) LogStarting = 1
          \<and> count_list (console s) ErrorNotInitialized = 0"
    unfolding s1 s Let_def
    using p1 l1 c1 run_ready [OF p1, where rnd = rnd and timing = timing and ins = post] by simp
qed

text \<open>
  A hundred polls without the sink, after which its arrival and a click change nothing; and
  the sink arriving at the third poll, followed by a click.
\<close>

theorem readiness_gate_witness:
  "take 100 (ticks never_ready) = replicate 100 False \<and> 100 \<le> length (ticks never_ready)
   \<and> (let s = run exact_round True (start no_custom False True 0) never_ready
        in listeners s = [] \<and> sent s = [] \<and> count_list (console s) ErrorNotInitialized = 1
           \<and> polling s = None)
   \<and> ticks two_misses = [False, False]
   \<and> (let s = run exact_round True (start no_custom False True 0)
                  (two_misses @ IntervalTick True 150 # [Click login_page [0, 1, 0]])
        in polling s = None \<and> count_list (console s) LogStarting = 1
           \<and> count_list (console s) ErrorNotInitialized = 0)"
proof -
  have h1: "\<forall>b \<in> set (take 100 (ticks never_ready)). \<not> b" by code_simp
  have n1: "100 \<le> length (ticks never_ready)" by code_simp
  have h2: "(\<forall>b \<in> set (ticks two_misses). \<not> b) \<and> length (ticks two_misses) < 100" by code_simp
  note gate = readiness_gate [where ins = never_ready and pre = two_misses and rnd = exact_round
      and timing = True and custom = no_custom and now = 0 and t = 150
      and post = "[Click login_page [0, 1, 0]]"]
  note never = gate [THEN conjunct1, THEN mp, OF h1]
    and third = gate [THEN conjunct2, THEN mp, OF h2]
  have a: "let s = run exact_round True (start no_custom False True 0) never_ready
        in listeners s = [] \<and> sent s = [] \<and> count_list (console s) ErrorNotInitialized = 1
           \<and> polling s = None"
    using never n1 by (simp add: Let_def)
  have b: "let s = run exact_round True (start no_custom False True 0)
                  (two_misses @ IntervalTick True 150 # [Click login_page [0, 1, 0]])
        in polling s = None \<and> count_list (console s) LogStarting = 1
           \<and> count_list (console s) ErrorNotInitialized = 0"
    using third by (simp add: Let_def)
  have t1: "take 100 (ticks never_ready) = replicate 100 False" by code_simp
  have t2: "ticks two_misses = [False, False]" by code_simp
  from t1 n1 a t2 b show ?thesis by blast
qed

section \<open>Focus tracker\<close>

text \<open>
  Claim C10. \<open>_initializeTracking\<close> registers the focus listener whatever the configuration,
  so \<open>start\<close> does for every argument when the sink is there. With the six tracker options
  all false it is the only listener, and the first focus event on an \<open>input\<close>, \<open>textarea\<close> or
  \<open>select\<close> element makes a \<open>form_field_focused\<close> call.
\<close>

theorem focus_tracker_unconditional:
  "FocusListener \<in> set (listeners (initializeTracking timing now s))
   \<and> FocusListener \<in> set (listeners (start custom True timing now))
   \<and> listeners (start all_off True timing now) = [FocusListener]
   \<and> (tagName element \<in> {Some ''INPUT'', Some ''TEXTAREA'', Some ''SELECT''} \<longrightarrow>
        sent (step rnd timing (start all_off True timing now) (Focus element)) =
          [(''form_field_focused'',
            [(''fieldId'', Str (if truthy (el_id element) then or_unknown (el_id element)
                                else or_unknown (el_name element))),
             (''fieldName'', prop_val (el_name element)),
             (''fieldType'', prop_val (el_type element)),
             (''formId'', Str (or_unknown (form_id element)))])])"
proof -
  have off: "listeners (start all_off True timing now) = [FocusListener]"
    by (simp add: start_def initializeTracking_def merge_config_def all_off_def override_def)
  have st: "sent (start all_off True timing now) = []" "trackedFields (start all_off True timing now) = {}"
    by (simp_all add: start_def initializeTracking_def)
  have "FocusListener \<in> set (listeners (initializeTracking timing now s))"
    by (simp add: initializeTracking_def)
  moreover have "FocusListener \<in> set (listeners (start custom True timing now))"
    by (simp add: start_def initializeTracking_def)
  moreover have "sent (step rnd timing (start all_off True timing now) (Focus element)) =
          [(''form_field_focused'',
            [(''fieldId'', Str (if truthy (el_id element) then or_unknown (el_id element)
                                else or_unknown (el_name element))),
             (''fieldName'', prop_val (el_name element)),
             (''fieldType'', prop_val (el_type element)),
             (''formId'', Str (or_unknown (form_id element)))])]"
    if "tagName element \<in> {Some ''INPUT'', Some ''TEXTAREA'', Some ''SELECT''}"
    using that off st
    by (simp add: focus_listener_def apply_effects_def tracked_call_def Let_def)
  ultimately show ?thesis using off by blast
qed

theorem focus_tracker_unconditional_witness:
  "tagName email_input \<in> {Some ''INPUT'', Some ''TEXTAREA'', Some ''SELECT''}
   \<and> sent (step exact_round True (start all_off True True 0) (Focus email_input)) =
          [(''form_field_focused'',
            [(''fieldId'', Str ''email''), (''fieldName'', Str ''email''),
             (''fieldType'', Str ''email''), (''formId'', Str ''signup'')])]"
proof -
  have tg: "tagName email_input \<in> {Some ''INPUT'', Some ''TEXTAREA'', Some ''SELECT''}"
    by code_simp
  have vals: "truthy (el_id email_input)" "or_unknown (el_id email_input) = ''email''"
    "prop_val (el_name email_input) = Str ''email''" "prop_val (el_type email_input) = Str ''email''"
    "or_unknown (form_id email_input) = ''signup''"
    by code_simp+
  note wired = focus_tracker_unconditional [where element = email_input and rnd = exact_round
      and timing = True and now = 0]
  note focused = wired [THEN conjunct2, THEN conjunct2, THEN conjunct2, THEN mp, OF tg]
  have "sent (step exact_round True (start all_off True True 0) (Focus email_input)) =
          [(''form_field_focused'',
            [(''fieldId'', Str ''email''), (''fieldName'', Str ''email''),
             (''fieldType'', Str ''email''), (''formId'', Str ''signup'')])]"
    using focused by (simp only: vals if_True)
  with tg show ?thesis by blast
qed

end
